theory Spec2Isabelle
  imports Main "HOL-Library.Sublist"
begin

section \<open>Python values used by \<open>anthill/app.py\<close>\<close>

text \<open>
  A Python \<open>dict\<close> with string keys is an association list in insertion order; a
  well-formed dict has pairwise distinct keys (\<open>distinct (map fst d)\<close>).
  A callable is known to the application only by its identity and by the answer of
  \<open>asyncio.iscoroutinefunction\<close>.
\<close>

type_synonym 'v dict = "(string \<times> 'v) list"

datatype callable = Callable (ident: string) (iscoroutinefunction: bool)

datatype error =
    KeyError string
  | ValueError string
  | InitializingTaskError string
  | InitializingIntevalTaskError string

text \<open>\<open>d[k]\<close> as a lookup, \<open>d[k] = v\<close>, \<open>d.update(other)\<close> and \<open>del d[k]\<close>.
  An assignment to an existing key keeps the key's position; a new key goes to the end.
  \<open>del\<close> of a key that is not there raises \<open>KeyError\<close>.\<close>

definition dict_get :: "'v dict \<Rightarrow> string \<Rightarrow> 'v option" where
  "dict_get d k = map_of d k"

definition dict_keys :: "'v dict \<Rightarrow> string list" where
  "dict_keys d = map fst d"

fun dict_setitem :: "string \<Rightarrow> 'v \<Rightarrow> 'v dict \<Rightarrow> 'v dict" where
  "dict_setitem k v [] = [(k, v)]"
| "dict_setitem k v (p # ps) = (if fst p = k then (k, v) # ps else p # dict_setitem k v ps)"

fun dict_update :: "'v dict \<Rightarrow> 'v dict \<Rightarrow> 'v dict" where
  "dict_update d [] = d"
| "dict_update d (p # other) = dict_update (dict_setitem (fst p) (snd p) d) other"

definition dict_delitem :: "string \<Rightarrow> 'v dict \<Rightarrow> error + 'v dict" where
  "dict_delitem k d =
     (if k \<in> set (dict_keys d) then Inr (filter (\<lambda>p. fst p \<noteq> k) d) else Inl (KeyError k))"

text \<open>\<open>sub in s\<close> on two strings: \<open>sub\<close> occurs in \<open>s\<close> as a contiguous run.\<close>

fun str_contains :: "string \<Rightarrow> string \<Rightarrow> bool" where
  "str_contains sub [] = (sub = [])"
| "str_contains sub (c # cs) = (prefix sub (c # cs) \<or> str_contains sub cs)"

section \<open>The application object and the world around it\<close>

text \<open>
  The static registry \<open>SUBSCRIPTIONS\<close> is a dict object that the application reaches
  through a reference, so dict objects live in a store indexed by address. The registries
  \<open>SUBSCRIPTIONS\<close>, \<open>TASKS\<close> and \<open>INTERVAL_TASKS\<close> are filled by the managers, which
  are not among the sources; their contents are arbitrary. The field \<open>http_server\<close> is
  the truth value of \<open>self.http_server\<close>, and \<open>listen_topics_callbacks\<close> is that entry of
  \<open>nats_config\<close>. The effects on the collaborators (event loop, threads, HTTP server,
  NATS client) are recorded as a trace of actions, each with the thread that performed it.
\<close>

type_synonym addr = nat

datatype aio_task = AioTask (task_id: nat) (task_coro: callable)

datatype target = Target callable | NoneTarget

datatype action =
    NATSClientInit "addr option"
  | CreateTask aio_task
  | StartServer
  | RunUntilComplete "aio_task list"
  | Sleep nat
  | StartThread target

record state =
  heap :: "addr \<Rightarrow> callable dict"
  SUBSCRIPTIONS :: addr
  subscribe_topics_and_callbacks :: "callable dict"
  listen_topic_only_if_include :: "string list option"
  listen_topics_callbacks :: "addr option"
  tasks :: "callable list"
  TASKS :: "callable list"
  INTERVAL_TASKS :: "(int \<times> callable list) list"
  interval_tasks :: "(int \<times> callable list) list"
  app_strategy :: string
  http_server :: bool
  current_thread :: nat
  events :: "(nat \<times> action) list"
  loop_tasks :: "aio_task list"
  next_task_id :: nat

text \<open>A statement leaves the state it reached and, when it raised, the exception.\<close>

type_synonym outcome = "state \<times> error option"

definition and_then :: "outcome \<Rightarrow> (state \<Rightarrow> outcome) \<Rightarrow> outcome" where
  "and_then r f = (case snd r of None \<Rightarrow> f (fst r) | Some e \<Rightarrow> r)"

definition emit :: "action \<Rightarrow> state \<Rightarrow> state" where
  "emit a s = s\<lparr>events := events s @ [(current_thread s, a)]\<rparr>"

section \<open>Building the subscriptions (\<open>App._start\<close>, lines 149 to 165)\<close>

text \<open>The inner loop over \<open>listen_topic_only_if_include\<close> with its \<open>break\<close>.\<close>

fun include_loop :: "string list \<Rightarrow> string \<Rightarrow> bool" where
  "include_loop [] topic = False"
| "include_loop (topic_include # rest) topic =
     (if str_contains topic_include topic then True else include_loop rest topic)"

text \<open>The outer loop runs over the keys of a copy and deletes from the dict object at
  address \<open>a\<close>.\<close>

fun filter_loop :: "string list \<Rightarrow> string list \<Rightarrow> addr \<Rightarrow> state \<Rightarrow> outcome" where
  "filter_loop [] F a s = (s, None)"
| "filter_loop (topic # rest) F a s =
     (if include_loop F topic then filter_loop rest F a s
      else (case dict_delitem topic (heap s a) of
              Inl e \<Rightarrow> (s, Some e)
            | Inr d \<Rightarrow> filter_loop rest F a (s\<lparr>heap := (heap s)(a := d)\<rparr>)))"

definition build_subscriptions :: "state \<Rightarrow> outcome" where
  "build_subscriptions s =
     (let topics_and_callbacks = SUBSCRIPTIONS s;
          s1 = s\<lparr>heap := (heap s)(topics_and_callbacks :=
                   dict_update (heap s topics_and_callbacks) (subscribe_topics_and_callbacks s))\<rparr>
      in and_then
           (case listen_topic_only_if_include s1 of
              None \<Rightarrow> (s1, None)
            | Some F \<Rightarrow> filter_loop (dict_keys (heap s1 topics_and_callbacks)) F topics_and_callbacks s1)
           (\<lambda>s2. (s2\<lparr>listen_topics_callbacks := Some topics_and_callbacks\<rparr>, None)))"

section \<open>Collaborators that are not part of \<open>app.py\<close>\<close>

text \<open>
  The event loop of \<open>asyncio\<close>: \<open>loop.create_task\<close> makes a new task object for the
  coroutine and registers it with the loop; \<open>asyncio.all_tasks(loop)\<close> returns the tasks
  registered with the loop so far, as a collection of its own.
\<close>

definition create_task :: "callable \<Rightarrow> state \<Rightarrow> state" where
  "create_task coro s =
     (let t = AioTask (next_task_id s) coro
      in emit (CreateTask t)
           (s\<lparr>loop_tasks := loop_tasks s @ [t], next_task_id := Suc (next_task_id s)\<rparr>))"

definition all_tasks :: "state \<Rightarrow> aio_task list" where
  "all_tasks s = loop_tasks s"

text \<open>
  Modelled from the spec: \<open>start_thread\<close> of \<open>utils/helper.py\<close> is not among the
  sources. The orchestrator "launches each one-shot and interval task on its own thread of
  control": a call is one action that starts a thread on the target it is given.
\<close>

definition start_thread :: "target \<Rightarrow> state \<Rightarrow> state" where
  "start_thread t s = emit (StartThread t) s"

text \<open>
  Modelled from the spec: \<open>HTTPServer.start_server\<close> of \<open>http_server/http_server_app.py\<close>
  is not among the sources. The HTTP listener is consumed "only through a start/stop
  contract" and "no return value [is] consumed by the core": a call is one action.
\<close>

definition start_server :: "state \<Rightarrow> state" where
  "start_server s = emit StartServer s"

text \<open>
  Modelled from the spec: \<open>NATSClient.__init__\<close> of \<open>nats_client/nats_client.py\<close> is not
  among the sources. The bus client is "asked to establish its connection using
  \<open>BusConfig\<close>" and may itself schedule units for message delivery: a call is one action
  that records the dict it was given for \<open>listen_topics_callbacks\<close>, followed by the
  creation of the client's own tasks on the loop; their coroutines are the parameter
  \<open>bus\<close>.
\<close>

definition NATSClient_init :: "callable list \<Rightarrow> addr option \<Rightarrow> state \<Rightarrow> state" where
  "NATSClient_init bus a s = fold create_task bus (emit (NATSClientInit a) s)"

section \<open>Starting the tasks (\<open>App._start_tasks\<close>)\<close>

text \<open>
  The four task loops have one shape: test the callable, raise or launch it, go on.
  The interval loops run over the keys of the dict of intervals in dict order and, inside,
  over the list stored under the key; every key of a dict is met once, with its own list,
  so the model runs over the entries.
\<close>

fun for_each_task ::
  "(callable \<Rightarrow> bool) \<Rightarrow> error \<Rightarrow> (callable \<Rightarrow> state \<Rightarrow> state) \<Rightarrow> callable list \<Rightarrow> state \<Rightarrow> outcome"
where
  "for_each_task rejected err launch [] s = (s, None)"
| "for_each_task rejected err launch (t # rest) s =
     (if rejected t then (s, Some err)
      else for_each_task rejected err launch rest (launch t s))"

fun for_each_interval ::
  "(callable \<Rightarrow> bool) \<Rightarrow> error \<Rightarrow> (callable \<Rightarrow> state \<Rightarrow> state) \<Rightarrow>
     (int \<times> callable list) list \<Rightarrow> state \<Rightarrow> outcome"
where
  "for_each_interval rejected err launch [] s = (s, None)"
| "for_each_interval rejected err launch (p # rest) s =
     (case for_each_task rejected err launch (snd p) s of
        (s', None) \<Rightarrow> for_each_interval rejected err launch rest s'
      | (s', Some e) \<Rightarrow> (s', Some e))"

definition not_coroutine :: "callable \<Rightarrow> bool" where
  "not_coroutine coro = (\<not> iscoroutinefunction coro)"

definition asyncio_tasks :: "callable list \<Rightarrow> state \<Rightarrow> outcome" where
  "asyncio_tasks =
     for_each_task not_coroutine
       (InitializingTaskError ''For asyncio app_strategy only coroutine tasks allowed'')
       create_task"

definition asyncio_interval_tasks :: "(int \<times> callable list) list \<Rightarrow> state \<Rightarrow> outcome" where
  "asyncio_interval_tasks =
     for_each_interval not_coroutine
       (InitializingIntevalTaskError ''For asyncio app_strategy only coroutine interval tasks allowed'')
       create_task"

definition sync_tasks :: "callable list \<Rightarrow> state \<Rightarrow> outcome" where
  "sync_tasks =
     for_each_task iscoroutinefunction
       (InitializingIntevalTaskError ''For sync app_strategy coroutine task doesn't allowed'')
       (\<lambda>task. start_thread (Target task))"

definition sync_interval_tasks :: "(int \<times> callable list) list \<Rightarrow> state \<Rightarrow> outcome" where
  "sync_interval_tasks =
     for_each_interval iscoroutinefunction
       (InitializingIntevalTaskError ''For sync app_strategy coroutine interval_task doesn't allowed'')
       (\<lambda>task. start_thread (Target task))"

definition App__start_tasks :: "state \<Rightarrow> outcome" where
  "App__start_tasks s =
     (if app_strategy s = ''asyncio'' then
        (let tasks0 = all_tasks s
         in and_then (asyncio_tasks (tasks s) s) (\<lambda>s1.
            and_then (asyncio_interval_tasks (interval_tasks s1) s1) (\<lambda>s2.
              (let s3 = (if http_server s2 then start_server s2 else s2)
               in (emit (RunUntilComplete tasks0) s3, None)))))
      else if app_strategy s = ''sync'' then
        (let s0 = emit (Sleep 1) s
         in and_then (sync_tasks (tasks s0) s0) (\<lambda>s1.
            and_then (sync_interval_tasks (interval_tasks s1) s1) (\<lambda>s2.
              ((if http_server s2 then start_server s2 else s2), None))))
      else (s, None))"

section \<open>\<open>App._start\<close> and \<open>App.start\<close>\<close>

definition App__start :: "callable list \<Rightarrow> state \<Rightarrow> outcome" where
  "App__start bus s =
     and_then (build_subscriptions s) (\<lambda>s1.
       (let s2 = NATSClient_init bus (listen_topics_callbacks s1) s1;
            s3 = s2\<lparr>tasks := tasks s2 @ TASKS s2\<rparr>;
            s4 = s3\<lparr>interval_tasks := INTERVAL_TASKS s3\<rparr>
        in App__start_tasks s4))"

text \<open>\<open>_start\<close> has no \<open>return\<close>: the call \<open>start_thread(self._start())\<close> first runs
  \<open>_start\<close> and then hands its value \<open>None\<close> to \<open>start_thread\<close>.\<close>

definition App_start :: "callable list \<Rightarrow> state \<Rightarrow> outcome" where
  "App_start bus s =
     (if http_server s then App__start bus s
      else and_then (App__start bus s) (\<lambda>s'. (start_thread NoneTarget s', None)))"

section \<open>The client id (\<open>App.__init__\<close>, lines 72 to 76, and
  \<open>App._create_client_code_by_hostname\<close>)\<close>












section \<open>Observations on a state\<close>

text \<open>The handler that the finished NATS configuration binds to a topic: the entry of the
  dict that \<open>nats_config['listen_topics_callbacks']\<close> refers to.\<close>

definition subscribed :: "state \<Rightarrow> string \<Rightarrow> callable option" where
  "subscribed s topic =
     (case listen_topics_callbacks s of None \<Rightarrow> None | Some a \<Rightarrow> dict_get (heap s a) topic)"

text \<open>The callables that a trace handed to the event loop or to a thread, the task objects
  that it created on the loop, and the task objects that it waited for.\<close>

fun launched_of :: "action \<Rightarrow> callable list" where
  "launched_of (CreateTask t) = [task_coro t]"
| "launched_of (StartThread (Target c)) = [c]"
| "launched_of _ = []"

definition launched :: "(nat \<times> action) list \<Rightarrow> callable list" where
  "launched evs = concat (map (\<lambda>e. launched_of (snd e)) evs)"

definition new_tasks :: "nat \<Rightarrow> callable list \<Rightarrow> aio_task list" where
  "new_tasks n cs = map (\<lambda>p. AioTask (fst p) (snd p)) (enumerate n cs)"

fun created_of :: "action \<Rightarrow> aio_task list" where
  "created_of (CreateTask t) = [t]"
| "created_of _ = []"

definition created :: "(nat \<times> action) list \<Rightarrow> aio_task list" where
  "created evs = concat (map (\<lambda>e. created_of (snd e)) evs)"

fun waited_of :: "action \<Rightarrow> aio_task list" where
  "waited_of (RunUntilComplete ts) = ts"
| "waited_of _ = []"

definition waited :: "(nat \<times> action) list \<Rightarrow> aio_task list" where
  "waited evs = concat (map (\<lambda>e. waited_of (snd e)) evs)"

text \<open>A task mismatches the strategy when it is not a coroutine function under
  \<open>asyncio\<close> or is one under \<open>sync\<close>.\<close>

definition mismatch :: "string \<Rightarrow> callable \<Rightarrow> bool" where
  "mismatch strategy t =
     (if strategy = ''asyncio'' then \<not> iscoroutinefunction t
      else if strategy = ''sync'' then iscoroutinefunction t
      else False)"

text \<open>An application constructed with the defaults of \<open>App.__init__\<close>, with empty
  registries, before \<open>start\<close>.\<close>

definition default_app :: state where
  "default_app =
     \<lparr>heap = (\<lambda>a. []), SUBSCRIPTIONS = 0, subscribe_topics_and_callbacks = [],
      listen_topic_only_if_include = None, listen_topics_callbacks = None,
      tasks = [], TASKS = [], INTERVAL_TASKS = [], interval_tasks = [],
      app_strategy = ''asyncio'', http_server = False,
      current_thread = 0, events = [], loop_tasks = [], next_task_id = 0\<rparr>"

text \<open>The application of \<open>tests/test_parameter_listen_topic_only_if_include.py\<close>:
  handlers for the topics \<open>start\<close>, \<open>foo\<close> and \<open>bar\<close>, and the filter
  \<open>["foo", "bar"]\<close>.\<close>

definition test_app :: state where
  "test_app = default_app
     \<lparr>heap := (\<lambda>a. [])(0 := [(''start'', Callable ''start'' True), (''foo'', Callable ''foo'' True),
                            (''bar'', Callable ''bar'' True)]),
      listen_topic_only_if_include := Some [''foo'', ''bar'']\<rparr>"

section \<open>Auxiliary facts\<close>
lemma str_contains_sublist: "str_contains sub s \<longleftrightarrow> sublist sub s"
  by (induction s) (auto simp: sublist_Cons_right)

lemma include_loop_iff: "include_loop F topic \<longleftrightarrow> (\<exists>f\<in>set F. sublist f topic)"
  by (induction F) (auto simp: str_contains_sublist)

lemma map_of_dict_setitem: "map_of (dict_setitem k v d) = (map_of d)(k \<mapsto> v)"
  by (induction d) (auto simp: fun_eq_iff)

lemma keys_dict_setitem: "set (map fst (dict_setitem k v d)) = insert k (set (map fst d))"
  by (induction d) auto

lemma distinct_dict_setitem: "distinct (map fst d) \<Longrightarrow> distinct (map fst (dict_setitem k v d))"
  by (induction d) (auto simp: keys_dict_setitem simp del: set_map)

lemma distinct_dict_update: "distinct (map fst d) \<Longrightarrow> distinct (map fst (dict_update d other))"
  by (induction other arbitrary: d) (auto simp: distinct_dict_setitem)

lemma map_of_dict_update:
  "distinct (map fst other) \<Longrightarrow> map_of (dict_update d other) = map_of d ++ map_of other"
proof (induction other arbitrary: d)
  case Nil
  then show ?case by simp
next
  case (Cons p other)
  then have "map_of other (fst p) = None"
    by (cases p) (auto simp: map_of_eq_None_iff)
  with Cons show ?case
    by (cases p) (auto simp: map_of_dict_setitem fun_eq_iff map_add_def split: option.splits)
qed

lemma filter_loop_result:
  "distinct ks \<Longrightarrow> set ks \<subseteq> set (map fst (heap s a)) \<Longrightarrow>
   filter_loop ks F a s =
     (s\<lparr>heap := (heap s)(a := filter (\<lambda>p. fst p \<notin> set ks \<or> include_loop F (fst p)) (heap s a))\<rparr>, None)"
proof (induction ks arbitrary: s)
  case Nil
  then show ?case by simp
next
  case (Cons topic rest)
  from Cons.prems have dr: "distinct rest" and notin: "topic \<notin> set rest"
    and sub: "set rest \<subseteq> set (map fst (heap s a))" and "in": "topic \<in> set (map fst (heap s a))"
    by auto
  show ?case
  proof (cases "include_loop F topic")
    case True
    have same: "filter (\<lambda>p. fst p \<notin> set rest \<or> include_loop F (fst p)) (heap s a)
       = filter (\<lambda>p. fst p \<notin> set (topic # rest) \<or> include_loop F (fst p)) (heap s a)"
      using True by (intro filter_cong) auto
    have "filter_loop (topic # rest) F a s = filter_loop rest F a s"
      using True by simp
    also note Cons.IH [OF dr sub]
    finally show ?thesis
      unfolding same .
  next
    case False
    let ?d = "filter (\<lambda>p. fst p \<noteq> topic) (heap s a)"
    let ?s = "s\<lparr>heap := (heap s)(a := ?d)\<rparr>"
    have del: "dict_delitem topic (heap s a) = Inr ?d"
      using "in" by (simp add: dict_delitem_def dict_keys_def)
    have sub': "set rest \<subseteq> set (map fst (heap ?s a))"
      using sub notin by auto
    have same: "filter (\<lambda>p. fst p \<notin> set rest \<or> include_loop F (fst p)) ?d
       = filter (\<lambda>p. fst p \<notin> set (topic # rest) \<or> include_loop F (fst p)) (heap s a)"
      using False by (auto intro: filter_cong)
    have "filter_loop (topic # rest) F a s = filter_loop rest F a ?s"
      using False del by simp
    also note Cons.IH [OF dr sub']
    also have "heap ?s a = ?d" by simp
    also note same
    also have "(heap ?s)(a := filter (\<lambda>p. fst p \<notin> set (topic # rest) \<or> include_loop F (fst p)) (heap s a))
        = (heap s)(a := filter (\<lambda>p. fst p \<notin> set (topic # rest) \<or> include_loop F (fst p)) (heap s a))"
      by simp
    also have "\<And>H. ?s\<lparr>heap := H\<rparr> = s\<lparr>heap := H\<rparr>" by simp
    finally show ?thesis .
  qed
qed


lemma for_each_task_result:
  "for_each_task rejected err launch ts s =
     (fold launch (takeWhile (\<lambda>t. \<not> rejected t) ts) s,
      if \<exists>t\<in>set ts. rejected t then Some err else None)"
  by (induction ts arbitrary: s) auto

lemma for_each_task_append:
  "for_each_task rejected err launch (xs @ ys) s =
     (case for_each_task rejected err launch xs s of
        (s', None) \<Rightarrow> for_each_task rejected err launch ys s'
      | (s', Some e) \<Rightarrow> (s', Some e))"
  by (induction xs arbitrary: s) auto

lemma for_each_interval_concat:
  "for_each_interval rejected err launch ps s =
     for_each_task rejected err launch (concat (map snd ps)) s"
  by (induction ps arbitrary: s)
     (auto simp: for_each_task_append split: prod.splits option.splits)

lemma for_each_interval_result:
  "for_each_interval rejected err launch ps s =
     (fold launch (takeWhile (\<lambda>t. \<not> rejected t) (concat (map snd ps))) s,
      if \<exists>t\<in>set (concat (map snd ps)). rejected t then Some err else None)"
  unfolding for_each_interval_concat by (rule for_each_task_result)

lemma fold_create_task:
  "fold create_task cs s =
     s\<lparr>events := events s @ map (\<lambda>t. (current_thread s, CreateTask t)) (new_tasks (next_task_id s) cs),
       loop_tasks := loop_tasks s @ new_tasks (next_task_id s) cs,
       next_task_id := next_task_id s + length cs\<rparr>"
  by (induction cs arbitrary: s) (simp_all add: create_task_def emit_def new_tasks_def Let_def)

lemma fold_start_thread:
  "fold (\<lambda>task. start_thread (Target task)) cs s =
     s\<lparr>events := events s @ map (\<lambda>c. (current_thread s, StartThread (Target c))) cs\<rparr>"
  by (induction cs arbitrary: s) (simp_all add: start_thread_def emit_def)

lemma launched_append: "launched (xs @ ys) = launched xs @ launched ys"
  by (simp add: launched_def)

lemma launched_new_tasks: "launched (map (\<lambda>t. (c, CreateTask t)) (new_tasks n cs)) = cs"
  by (induction cs arbitrary: n) (simp_all add: launched_def new_tasks_def)

lemma launched_threads: "launched (map (\<lambda>t. (c, StartThread (Target t))) cs) = cs"
  by (induction cs) (simp_all add: launched_def)


lemma fold_create_task_frame:
  "heap (fold create_task cs s) = heap s"
  "SUBSCRIPTIONS (fold create_task cs s) = SUBSCRIPTIONS s"
  "subscribe_topics_and_callbacks (fold create_task cs s) = subscribe_topics_and_callbacks s"
  "listen_topic_only_if_include (fold create_task cs s) = listen_topic_only_if_include s"
  "listen_topics_callbacks (fold create_task cs s) = listen_topics_callbacks s"
  "tasks (fold create_task cs s) = tasks s"
  "TASKS (fold create_task cs s) = TASKS s"
  "INTERVAL_TASKS (fold create_task cs s) = INTERVAL_TASKS s"
  "interval_tasks (fold create_task cs s) = interval_tasks s"
  "app_strategy (fold create_task cs s) = app_strategy s"
  "http_server (fold create_task cs s) = http_server s"
  "current_thread (fold create_task cs s) = current_thread s"
  by (simp_all add: fold_create_task)

lemma fold_start_thread_frame:
  "heap (fold (\<lambda>task. start_thread (Target task)) cs s) = heap s"
  "SUBSCRIPTIONS (fold (\<lambda>task. start_thread (Target task)) cs s) = SUBSCRIPTIONS s"
  "subscribe_topics_and_callbacks (fold (\<lambda>task. start_thread (Target task)) cs s) = subscribe_topics_and_callbacks s"
  "listen_topic_only_if_include (fold (\<lambda>task. start_thread (Target task)) cs s) = listen_topic_only_if_include s"
  "listen_topics_callbacks (fold (\<lambda>task. start_thread (Target task)) cs s) = listen_topics_callbacks s"
  "tasks (fold (\<lambda>task. start_thread (Target task)) cs s) = tasks s"
  "TASKS (fold (\<lambda>task. start_thread (Target task)) cs s) = TASKS s"
  "INTERVAL_TASKS (fold (\<lambda>task. start_thread (Target task)) cs s) = INTERVAL_TASKS s"
  "interval_tasks (fold (\<lambda>task. start_thread (Target task)) cs s) = interval_tasks s"
  "app_strategy (fold (\<lambda>task. start_thread (Target task)) cs s) = app_strategy s"
  "http_server (fold (\<lambda>task. start_thread (Target task)) cs s) = http_server s"
  "current_thread (fold (\<lambda>task. start_thread (Target task)) cs s) = current_thread s"
  "loop_tasks (fold (\<lambda>task. start_thread (Target task)) cs s) = loop_tasks s"
  "next_task_id (fold (\<lambda>task. start_thread (Target task)) cs s) = next_task_id s"
  by (simp_all add: fold_start_thread)

lemma emit_frame:
  "heap (emit a s) = heap s"
  "SUBSCRIPTIONS (emit a s) = SUBSCRIPTIONS s"
  "subscribe_topics_and_callbacks (emit a s) = subscribe_topics_and_callbacks s"
  "listen_topic_only_if_include (emit a s) = listen_topic_only_if_include s"
  "listen_topics_callbacks (emit a s) = listen_topics_callbacks s"
  "tasks (emit a s) = tasks s"
  "TASKS (emit a s) = TASKS s"
  "INTERVAL_TASKS (emit a s) = INTERVAL_TASKS s"
  "interval_tasks (emit a s) = interval_tasks s"
  "app_strategy (emit a s) = app_strategy s"
  "http_server (emit a s) = http_server s"
  "current_thread (emit a s) = current_thread s"
  "loop_tasks (emit a s) = loop_tasks s"
  "next_task_id (emit a s) = next_task_id s"
  "events (emit a s) = events s @ [(current_thread s, a)]"
  by (simp_all add: emit_def)

text \<open>Both strategies run the same two loops one after the other.\<close>

lemma two_loops:
  assumes "\<And>cs s. interval_tasks (fold launch cs s) = interval_tasks s"
  shows "and_then (for_each_task rejected e1 launch xs s)
           (\<lambda>s1. and_then (for_each_interval rejected e2 launch (interval_tasks s1) s1) k) =
         (let al = xs @ concat (map snd (interval_tasks s));
              s2 = fold launch (takeWhile (\<lambda>t. \<not> rejected t) al) s
          in if \<exists>t\<in>set xs. rejected t then (s2, Some e1)
             else if \<exists>t\<in>set (concat (map snd (interval_tasks s))). rejected t then (s2, Some e2)
             else k s2)"
proof (cases "\<exists>t\<in>set xs. rejected t")
  case True
  then show ?thesis
    by (simp add: and_then_def for_each_task_result takeWhile_append1 Let_def del: set_concat)
       (metis takeWhile_append1)
next
  case False
  then have tw: "takeWhile (\<lambda>t. \<not> rejected t) xs = xs"
    by (simp add: takeWhile_eq_all_conv)
  from False have tw2: "takeWhile (\<lambda>t. \<not> rejected t) (xs @ ys) = xs @ takeWhile (\<lambda>t. \<not> rejected t) ys" for ys
    by (simp add: takeWhile_append2)
  show ?thesis
    using False
    by (simp add: and_then_def for_each_task_result for_each_interval_result tw tw2 assms Let_def
          del: set_concat)
qed


lemma App__start_tasks_asyncio:
  assumes "app_strategy s = ''asyncio''"
  shows "App__start_tasks s =
     (let al = tasks s @ concat (map snd (interval_tasks s));
          s2 = fold create_task (takeWhile iscoroutinefunction al) s
      in if \<exists>t\<in>set (tasks s). \<not> iscoroutinefunction t
         then (s2, Some (InitializingTaskError ''For asyncio app_strategy only coroutine tasks allowed''))
         else if \<exists>t\<in>set (concat (map snd (interval_tasks s))). \<not> iscoroutinefunction t
         then (s2, Some (InitializingIntevalTaskError
                  ''For asyncio app_strategy only coroutine interval tasks allowed''))
         else (emit (RunUntilComplete (loop_tasks s)) (if http_server s then start_server s2 else s2),
               None))"
proof -
  have fr: "\<And>cs s. interval_tasks (fold create_task cs s) = interval_tasks s"
    by (rule fold_create_task_frame)
  have nc: "(\<lambda>t. \<not> not_coroutine t) = iscoroutinefunction"
    by (simp add: not_coroutine_def fun_eq_iff)
  show ?thesis
    unfolding App__start_tasks_def asyncio_tasks_def asyncio_interval_tasks_def
    using assms
    by (simp add: two_loops [of create_task, OF fr] nc all_tasks_def Let_def
          fold_create_task_frame not_coroutine_def del: set_concat)
qed

lemma App__start_tasks_sync:
  assumes "app_strategy s = ''sync''"
  shows "App__start_tasks s =
     (let al = tasks s @ concat (map snd (interval_tasks s));
          s2 = fold (\<lambda>task. start_thread (Target task))
                 (takeWhile (\<lambda>t. \<not> iscoroutinefunction t) al) (emit (Sleep 1) s)
      in if \<exists>t\<in>set (tasks s). iscoroutinefunction t
         then (s2, Some (InitializingIntevalTaskError
                  ''For sync app_strategy coroutine task doesn't allowed''))
         else if \<exists>t\<in>set (concat (map snd (interval_tasks s))). iscoroutinefunction t
         then (s2, Some (InitializingIntevalTaskError
                  ''For sync app_strategy coroutine interval_task doesn't allowed''))
         else ((if http_server s then start_server s2 else s2), None))"
proof -
  have fr: "\<And>cs s. interval_tasks (fold (\<lambda>task. start_thread (Target task)) cs s) = interval_tasks s"
    by (rule fold_start_thread_frame)
  show ?thesis
    unfolding App__start_tasks_def sync_tasks_def sync_interval_tasks_def
    using assms
    by (simp add: two_loops [of "\<lambda>task. start_thread (Target task)", OF fr] Let_def
          fold_start_thread_frame emit_frame del: set_concat)
qed

lemma new_tasks_ids: "t \<in> set (new_tasks n cs) \<Longrightarrow> n \<le> task_id t"
  by (auto simp: new_tasks_def in_set_enumerate_eq)

lemma launched_Cons: "launched (e # es) = launched_of (snd e) @ launched es"
  by (simp add: launched_def)

lemma mismatch_asyncio: "mismatch ''asyncio'' = (\<lambda>t. \<not> iscoroutinefunction t)"
  by (simp add: mismatch_def fun_eq_iff)

lemma mismatch_sync: "mismatch ''sync'' = iscoroutinefunction"
  by (simp add: mismatch_def fun_eq_iff)

lemma map_of_filter_key:
  "map_of (filter (\<lambda>p. P (fst p)) d) k = (if P k then map_of d k else None)"
  by (induction d) auto

lemma build_subscriptions_result:
  assumes "distinct (dict_keys (heap s (SUBSCRIPTIONS s)))"
  shows "build_subscriptions s =
     (s\<lparr>heap := (heap s)(SUBSCRIPTIONS s :=
            (case listen_topic_only_if_include s of
               None \<Rightarrow> dict_update (heap s (SUBSCRIPTIONS s)) (subscribe_topics_and_callbacks s)
             | Some F \<Rightarrow> filter (\<lambda>p. include_loop F (fst p))
                 (dict_update (heap s (SUBSCRIPTIONS s)) (subscribe_topics_and_callbacks s)))),
        listen_topics_callbacks := Some (SUBSCRIPTIONS s)\<rparr>, None)"
proof (cases "listen_topic_only_if_include s")
  case None
  then show ?thesis
    by (simp add: build_subscriptions_def and_then_def Let_def)
next
  case (Some F)
  let ?a = "SUBSCRIPTIONS s"
  let ?m = "dict_update (heap s ?a) (subscribe_topics_and_callbacks s)"
  let ?s1 = "s\<lparr>heap := (heap s)(?a := ?m)\<rparr>"
  have d: "distinct (map fst ?m)"
    using assms by (simp add: dict_keys_def distinct_dict_update)
  have h: "heap ?s1 ?a = ?m" by simp
  have "filter_loop (map fst ?m) F ?a ?s1 =
     (?s1\<lparr>heap := (heap ?s1)(?a := filter (\<lambda>p. fst p \<notin> set (map fst ?m) \<or> include_loop F (fst p)) (heap ?s1 ?a))\<rparr>, None)"
    by (rule filter_loop_result) (use d in \<open>simp_all only: h subset_refl\<close>)
  also have "filter (\<lambda>p. fst p \<notin> set (map fst ?m) \<or> include_loop F (fst p)) (heap ?s1 ?a)
      = filter (\<lambda>p. include_loop F (fst p)) ?m"
    unfolding h by (rule filter_cong) auto
  also have "(heap ?s1)(?a := filter (\<lambda>p. include_loop F (fst p)) ?m)
      = (heap s)(?a := filter (\<lambda>p. include_loop F (fst p)) ?m)"
    by simp
  also have "\<And>H. ?s1\<lparr>heap := H\<rparr> = s\<lparr>heap := H\<rparr>" by simp
  finally have fl: "filter_loop (map fst ?m) F ?a ?s1 =
      (s\<lparr>heap := (heap s)(?a := filter (\<lambda>p. include_loop F (fst p)) ?m)\<rparr>, None)" .
  show ?thesis
    using Some fl by (simp add: build_subscriptions_def and_then_def Let_def dict_keys_def)
qed

lemma App__start_tasks_frame:
  "heap (fst (App__start_tasks s)) = heap s"
  "SUBSCRIPTIONS (fst (App__start_tasks s)) = SUBSCRIPTIONS s"
  "listen_topics_callbacks (fst (App__start_tasks s)) = listen_topics_callbacks s"
  "tasks (fst (App__start_tasks s)) = tasks s"
  "TASKS (fst (App__start_tasks s)) = TASKS s"
  "INTERVAL_TASKS (fst (App__start_tasks s)) = INTERVAL_TASKS s"
  "interval_tasks (fst (App__start_tasks s)) = interval_tasks s"
  "current_thread (fst (App__start_tasks s)) = current_thread s"
proof -
  consider (a) "app_strategy s = ''asyncio''" | (b) "app_strategy s = ''sync''"
    | (c) "app_strategy s \<noteq> ''asyncio''" "app_strategy s \<noteq> ''sync''"
    by blast
  then have "heap (fst (App__start_tasks s)) = heap s \<and>
    SUBSCRIPTIONS (fst (App__start_tasks s)) = SUBSCRIPTIONS s \<and>
    listen_topics_callbacks (fst (App__start_tasks s)) = listen_topics_callbacks s \<and>
    tasks (fst (App__start_tasks s)) = tasks s \<and>
    TASKS (fst (App__start_tasks s)) = TASKS s \<and>
    INTERVAL_TASKS (fst (App__start_tasks s)) = INTERVAL_TASKS s \<and>
    interval_tasks (fst (App__start_tasks s)) = interval_tasks s \<and>
    current_thread (fst (App__start_tasks s)) = current_thread s"
  proof cases
    case a
    show ?thesis
      unfolding App__start_tasks_asyncio [OF a] Let_def
      by (simp add: fold_create_task_frame emit_frame start_server_def del: set_concat)
  next
    case b
    show ?thesis
      unfolding App__start_tasks_sync [OF b] Let_def
      by (simp add: fold_start_thread_frame emit_frame start_server_def del: set_concat)
  next
    case c
    then show ?thesis by (simp add: App__start_tasks_def)
  qed
  then show "heap (fst (App__start_tasks s)) = heap s"
  "SUBSCRIPTIONS (fst (App__start_tasks s)) = SUBSCRIPTIONS s"
  "listen_topics_callbacks (fst (App__start_tasks s)) = listen_topics_callbacks s"
  "tasks (fst (App__start_tasks s)) = tasks s"
  "TASKS (fst (App__start_tasks s)) = TASKS s"
  "INTERVAL_TASKS (fst (App__start_tasks s)) = INTERVAL_TASKS s"
  "interval_tasks (fst (App__start_tasks s)) = interval_tasks s"
  "current_thread (fst (App__start_tasks s)) = current_thread s"
    by simp_all
qed

text \<open>The state in which \<open>_start\<close> calls \<open>_start_tasks\<close>.\<close>

lemma App__start_result:
  assumes "distinct (dict_keys (heap s (SUBSCRIPTIONS s)))"
  shows "App__start bus s =
     App__start_tasks
       ((NATSClient_init bus (Some (SUBSCRIPTIONS s))
          (s\<lparr>heap := (heap s)(SUBSCRIPTIONS s :=
            (case listen_topic_only_if_include s of
               None \<Rightarrow> dict_update (heap s (SUBSCRIPTIONS s)) (subscribe_topics_and_callbacks s)
             | Some F \<Rightarrow> filter (\<lambda>p. include_loop F (fst p))
                 (dict_update (heap s (SUBSCRIPTIONS s)) (subscribe_topics_and_callbacks s)))),
            listen_topics_callbacks := Some (SUBSCRIPTIONS s)\<rparr>))
        \<lparr>tasks := tasks s @ TASKS s, interval_tasks := INTERVAL_TASKS s\<rparr>)"
  unfolding App__start_def build_subscriptions_result [OF assms]
  by (simp add: and_then_def Let_def NATSClient_init_def fold_create_task_frame emit_frame)

lemma NATSClient_init_frame:
  "heap (NATSClient_init bus a s) = heap s"
  "SUBSCRIPTIONS (NATSClient_init bus a s) = SUBSCRIPTIONS s"
  "listen_topics_callbacks (NATSClient_init bus a s) = listen_topics_callbacks s"
  "tasks (NATSClient_init bus a s) = tasks s"
  "TASKS (NATSClient_init bus a s) = TASKS s"
  "INTERVAL_TASKS (NATSClient_init bus a s) = INTERVAL_TASKS s"
  "interval_tasks (NATSClient_init bus a s) = interval_tasks s"
  "current_thread (NATSClient_init bus a s) = current_thread s"
  "app_strategy (NATSClient_init bus a s) = app_strategy s"
  "http_server (NATSClient_init bus a s) = http_server s"
  by (simp_all add: NATSClient_init_def fold_create_task_frame emit_frame)

lemma App__start_registry:
  assumes "distinct (dict_keys (heap s (SUBSCRIPTIONS s)))"
  shows "heap (fst (App__start bus s)) (SUBSCRIPTIONS s) =
           (case listen_topic_only_if_include s of
               None \<Rightarrow> dict_update (heap s (SUBSCRIPTIONS s)) (subscribe_topics_and_callbacks s)
             | Some F \<Rightarrow> filter (\<lambda>p. \<exists>f\<in>set F. sublist f (fst p))
                 (dict_update (heap s (SUBSCRIPTIONS s)) (subscribe_topics_and_callbacks s)))"
    and "listen_topics_callbacks (fst (App__start bus s)) = Some (SUBSCRIPTIONS s)"
    and "SUBSCRIPTIONS (fst (App__start bus s)) = SUBSCRIPTIONS s"
  unfolding App__start_result [OF assms]
  by (simp_all add: App__start_tasks_frame NATSClient_init_frame include_loop_iff
        split: option.splits)

lemma App__start_subscribed:
  assumes "distinct (dict_keys (heap s (SUBSCRIPTIONS s)))"
    and "distinct (dict_keys (subscribe_topics_and_callbacks s))"
  shows "subscribed (fst (App__start bus s)) topic =
     (if (case listen_topic_only_if_include s of None \<Rightarrow> True
          | Some F \<Rightarrow> \<exists>f\<in>set F. sublist f topic)
      then (dict_get (heap s (SUBSCRIPTIONS s)) ++ dict_get (subscribe_topics_and_callbacks s)) topic
      else None)"
proof -
  have m: "map_of (dict_update (heap s (SUBSCRIPTIONS s)) (subscribe_topics_and_callbacks s))
      = map_of (heap s (SUBSCRIPTIONS s)) ++ map_of (subscribe_topics_and_callbacks s)"
    using assms(2) by (simp add: map_of_dict_update dict_keys_def)
  have dg: "dict_get d = map_of d" for d :: "callable dict"
    by (simp add: dict_get_def fun_eq_iff)
  show ?thesis
    by (simp add: subscribed_def App__start_registry [OF assms(1)] dg m
          map_of_filter_key [where P = "\<lambda>k. \<exists>f\<in>set F. sublist f k" for F]
          split: option.splits)
qed

lemma filter_loop_frame:
  "events (fst (filter_loop ks F a s)) = events s \<and>
   current_thread (fst (filter_loop ks F a s)) = current_thread s"
  by (induction ks arbitrary: s) (auto split: sum.splits)

lemma build_subscriptions_frame:
  "events (fst (build_subscriptions s)) = events s"
  "current_thread (fst (build_subscriptions s)) = current_thread s"
  by (auto simp: build_subscriptions_def and_then_def Let_def filter_loop_frame
        split: option.splits)

lemma App__start_tasks_events:
  "\<exists>new. events (fst (App__start_tasks s)) = events s @ new \<and>
         (\<forall>e\<in>set new. fst e = current_thread s)"
proof -
  consider (a) "app_strategy s = ''asyncio''" | (b) "app_strategy s = ''sync''"
    | (c) "app_strategy s \<noteq> ''asyncio''" "app_strategy s \<noteq> ''sync''"
    by blast
  then show ?thesis
  proof cases
    case a
    show ?thesis
      unfolding App__start_tasks_asyncio [OF a] Let_def
      by (auto simp: fold_create_task emit_def start_server_def simp del: set_concat fold_append)
  next
    case b
    show ?thesis
      unfolding App__start_tasks_sync [OF b] Let_def
      by (auto simp: fold_start_thread emit_def start_server_def simp del: set_concat fold_append)
  next
    case c
    then show ?thesis by (simp add: App__start_tasks_def)
  qed
qed

lemma NATSClient_init_events:
  "events (NATSClient_init bus a s) =
     events s @ (current_thread s, NATSClientInit a) #
       map (\<lambda>t. (current_thread s, CreateTask t)) (new_tasks (next_task_id s) bus)"
  by (simp add: NATSClient_init_def fold_create_task emit_def)

lemma App__start_events:
  "current_thread (fst (App__start bus s)) = current_thread s \<and>
   (\<exists>new. events (fst (App__start bus s)) = events s @ new \<and>
          (\<forall>e\<in>set new. fst e = current_thread s))"
proof (cases "snd (build_subscriptions s)")
  case (Some e)
  then show ?thesis
    by (simp add: App__start_def and_then_def build_subscriptions_frame)
next
  case None
  let ?s1 = "fst (build_subscriptions s)"
  let ?s4 = "(NATSClient_init bus (listen_topics_callbacks ?s1) ?s1)
               \<lparr>tasks := tasks ?s1 @ TASKS ?s1, interval_tasks := INTERVAL_TASKS ?s1\<rparr>"
  have r: "App__start bus s = App__start_tasks ?s4"
    using None by (simp add: App__start_def and_then_def Let_def NATSClient_init_frame)
  have c4: "current_thread ?s4 = current_thread s"
    by (simp add: NATSClient_init_frame build_subscriptions_frame)
  have e4: "events ?s4 = events s @ (current_thread s, NATSClientInit (listen_topics_callbacks ?s1)) #
       map (\<lambda>t. (current_thread s, CreateTask t)) (new_tasks (next_task_id ?s1) bus)"
    by (simp add: NATSClient_init_events build_subscriptions_frame)
  from App__start_tasks_events [of ?s4] obtain new where
    n: "events (fst (App__start_tasks ?s4)) = events ?s4 @ new" "\<forall>e\<in>set new. fst e = current_thread ?s4"
    by blast
  have "events (fst (App__start bus s)) = events s @
      ((current_thread s, NATSClientInit (listen_topics_callbacks ?s1)) #
       map (\<lambda>t. (current_thread s, CreateTask t)) (new_tasks (next_task_id ?s1) bus) @ new)"
    unfolding r n(1) e4 by simp
  moreover have "\<forall>e\<in>set ((current_thread s, NATSClientInit (listen_topics_callbacks ?s1)) #
       map (\<lambda>t. (current_thread s, CreateTask t)) (new_tasks (next_task_id ?s1) bus) @ new).
       fst e = current_thread s"
    using n(2) c4 by auto
  moreover have "current_thread (fst (App__start bus s)) = current_thread s"
    unfolding r by (simp only: App__start_tasks_frame c4)
  ultimately show ?thesis by blast
qed






lemmas eval_defs =
  default_app_def App__start_def App_start_def build_subscriptions_def and_then_def
  NATSClient_init_def App__start_tasks_def asyncio_tasks_def asyncio_interval_tasks_def
  sync_tasks_def sync_interval_tasks_def not_coroutine_def create_task_def emit_def
  start_thread_def start_server_def all_tasks_def dict_keys_def dict_get_def dict_delitem_def
  subscribed_def Let_def


section \<open>The claims\<close>

text \<open>
  C1 (as amended). Under \<open>asyncio\<close> and \<open>sync\<close>, a task whose mode mismatches the
  strategy makes \<open>_start_tasks\<close> raise \<open>InitializingTaskError\<close> or
  \<open>InitializingIntevalTaskError\<close>. The check of a task comes right before its launch, so
  at the raise exactly the tasks before the first offending one, in dispatch order (one-shot
  tasks, then interval tasks in dict order), have been handed to the event loop or to a
  thread, and none from the offending one on.
\<close>

theorem C1_error_after_prefix:
  assumes "\<exists>t\<in>set (tasks s @ concat (map snd (interval_tasks s))). mismatch (app_strategy s) t"
  shows "(\<exists>msg. snd (App__start_tasks s) = Some (InitializingTaskError msg) \<or>
                snd (App__start_tasks s) = Some (InitializingIntevalTaskError msg)) \<and>
         launched (events (fst (App__start_tasks s))) =
           launched (events s) @
           takeWhile (\<lambda>t. \<not> mismatch (app_strategy s) t)
             (tasks s @ concat (map snd (interval_tasks s)))"
proof -
  from assms consider (a) "app_strategy s = ''asyncio''" | (b) "app_strategy s = ''sync''"
    by (auto simp: mismatch_def split: if_splits)
  then show ?thesis
  proof cases
    case a
    with assms have ex: "(\<exists>t\<in>set (tasks s). \<not> iscoroutinefunction t) \<or>
        (\<exists>t\<in>set (concat (map snd (interval_tasks s))). \<not> iscoroutinefunction t)"
      by (auto simp: mismatch_asyncio)
    show ?thesis
      unfolding App__start_tasks_asyncio [OF a] Let_def a mismatch_asyncio
      using ex
      by (auto simp: fold_create_task launched_append launched_new_tasks simp del: set_concat)
  next
    case b
    with assms have ex: "(\<exists>t\<in>set (tasks s). iscoroutinefunction t) \<or>
        (\<exists>t\<in>set (concat (map snd (interval_tasks s))). iscoroutinefunction t)"
      by (auto simp: mismatch_sync)
    show ?thesis
      unfolding App__start_tasks_sync [OF b] Let_def b mismatch_sync
      using ex
      by (auto simp: fold_start_thread emit_frame launched_append launched_threads launched_Cons
            simp del: set_concat)
  qed
qed

text \<open>
  C1 as stated fails: with a coroutine task followed by a plain function under
  \<open>asyncio\<close>, the error is raised after the first task has been handed to the loop.
\<close>

theorem C1_partial_scheduling_counterexample:
  "snd (App__start_tasks (default_app\<lparr>tasks := [Callable ''good'' True, Callable ''bad'' False]\<rparr>))
     = Some (InitializingTaskError ''For asyncio app_strategy only coroutine tasks allowed'') \<and>
   launched (events (fst (App__start_tasks
       (default_app\<lparr>tasks := [Callable ''good'' True, Callable ''bad'' False]\<rparr>))))
     = [Callable ''good'' True]"
  by (simp add: default_app_def App__start_tasks_def asyncio_tasks_def and_then_def
        not_coroutine_def create_task_def emit_def all_tasks_def launched_def Let_def)

theorem C1_error_after_prefix_witness:
  "launched (events (fst (App__start_tasks
       (default_app\<lparr>app_strategy := ''sync'',
          tasks := [Callable ''a'' False],
          interval_tasks := [(2, [Callable ''b'' False, Callable ''c'' True, Callable ''d'' False])]\<rparr>))))
     = [Callable ''a'' False, Callable ''b'' False]"
  using C1_error_after_prefix [of "default_app\<lparr>app_strategy := ''sync'',
          tasks := [Callable ''a'' False],
          interval_tasks := [(2, [Callable ''b'' False, Callable ''c'' True, Callable ''d'' False])]\<rparr>"]
  by (simp add: default_app_def mismatch_def launched_def)

text \<open>
  C2. After \<open>_start\<close>, the dict given to the NATS client binds a topic exactly when the
  merged map (static bindings overlaid with the dynamic ones) binds it and, if a filter is
  set, some element of the filter occurs in the topic's name as a contiguous substring; it
  then binds it to the handler of the merged map. Without a filter no topic is removed.
\<close>

theorem C2_include_filter:
  assumes "distinct (dict_keys (heap s (SUBSCRIPTIONS s)))"
    and "distinct (dict_keys (subscribe_topics_and_callbacks s))"
  shows "subscribed (fst (App__start bus s)) topic =
     (case listen_topic_only_if_include s of
        None \<Rightarrow>
          (dict_get (heap s (SUBSCRIPTIONS s)) ++ dict_get (subscribe_topics_and_callbacks s)) topic
      | Some F \<Rightarrow>
          if \<exists>f\<in>set F. sublist f topic
          then (dict_get (heap s (SUBSCRIPTIONS s)) ++ dict_get (subscribe_topics_and_callbacks s)) topic
          else None)"
  unfolding App__start_subscribed [OF assms] by (simp split: option.splits)

theorem C2_include_filter_witness:
  "subscribed (fst (App__start [] test_app)) ''foo'' = Some (Callable ''foo'' True) \<and>
   subscribed (fst (App__start [] test_app)) ''bar'' = Some (Callable ''bar'' True) \<and>
   subscribed (fst (App__start [] test_app)) ''start'' = None"
  using C2_include_filter [of test_app "[]" "''foo''"]
    C2_include_filter [of test_app "[]" "''bar''"]
    C2_include_filter [of test_app "[]" "''start''"]
  by (simp add: test_app_def default_app_def dict_keys_def dict_get_def map_add_def sublist_code)

text \<open>
  C3 (as amended). The one-shot tasks after \<open>_start\<close> are the caller-supplied tasks
  followed by the statically declared ones (\<open>self.tasks + self.TASKS\<close>), each list in its
  own order.
\<close>

theorem C3_tasks_merged:
  assumes "distinct (dict_keys (heap s (SUBSCRIPTIONS s)))"
  shows "tasks (fst (App__start bus s)) = tasks s @ TASKS s"
  unfolding App__start_result [OF assms]
  by (simp add: App__start_tasks_frame)

text \<open>
  C3 as stated fails: with one supplied and one declared task, the supplied task comes
  first.
\<close>

theorem C3_static_first_counterexample:
  "tasks (fst (App__start [] (default_app\<lparr>tasks := [Callable ''supplied'' True],
       TASKS := [Callable ''declared'' True]\<rparr>)))
     = [Callable ''supplied'' True, Callable ''declared'' True]"
  by (simp add: eval_defs)

theorem C3_tasks_merged_witness:
  "tasks (fst (App__start [] (default_app\<lparr>tasks := [Callable ''supplied'' True],
       TASKS := [Callable ''declared1'' True, Callable ''declared2'' True]\<rparr>)))
     = [Callable ''supplied'' True, Callable ''declared1'' True, Callable ''declared2'' True]"
  using C3_tasks_merged [of "default_app\<lparr>tasks := [Callable ''supplied'' True],
       TASKS := [Callable ''declared1'' True, Callable ''declared2'' True]\<rparr>" "[]"]
  by (simp add: default_app_def dict_keys_def)

text \<open>
  C4 (as amended). Under \<open>asyncio\<close>, with coroutine tasks only, \<open>_start_tasks\<close> creates
  one task per one-shot task and per interval task on the loop, starts the HTTP server if
  there is one, and at last waits in \<open>run_until_complete\<close> for the tasks that were
  registered with the loop when it was entered: the snapshot is taken before the first
  \<open>create_task\<close>, and no task created in this step is in it.
\<close>

theorem C4_waits_on_earlier_tasks:
  assumes "app_strategy s = ''asyncio''"
    and "\<forall>t\<in>set (tasks s @ concat (map snd (interval_tasks s))). iscoroutinefunction t"
    and "\<forall>t\<in>set (loop_tasks s). task_id t < next_task_id s"
  shows "snd (App__start_tasks s) = None \<and>
         events (fst (App__start_tasks s)) =
           events s @
           map (\<lambda>t. (current_thread s, CreateTask t))
             (new_tasks (next_task_id s) (tasks s @ concat (map snd (interval_tasks s)))) @
           (if http_server s then [(current_thread s, StartServer)] else []) @
           [(current_thread s, RunUntilComplete (loop_tasks s))] \<and>
         loop_tasks (fst (App__start_tasks s)) =
           loop_tasks s @ new_tasks (next_task_id s) (tasks s @ concat (map snd (interval_tasks s))) \<and>
         set (new_tasks (next_task_id s) (tasks s @ concat (map snd (interval_tasks s))))
           \<inter> set (loop_tasks s) = {}"
proof -
  have tw: "takeWhile iscoroutinefunction (tasks s @ concat (map snd (interval_tasks s)))
      = tasks s @ concat (map snd (interval_tasks s))"
    using assms(2) by (simp add: takeWhile_eq_all_conv)
  from assms(2) have no1: "\<not> (\<exists>t\<in>set (tasks s). \<not> iscoroutinefunction t)"
    and no2: "\<not> (\<exists>t\<in>set (concat (map snd (interval_tasks s))). \<not> iscoroutinefunction t)"
    by auto
  have disj: "set (new_tasks (next_task_id s) (tasks s @ concat (map snd (interval_tasks s))))
           \<inter> set (loop_tasks s) = {}"
    using assms(3) new_tasks_ids by fastforce
  have "snd (App__start_tasks s) = None"
    unfolding App__start_tasks_asyncio [OF assms(1)] Let_def tw using no1 no2
    by (simp del: set_concat)
  moreover have "events (fst (App__start_tasks s)) =
           events s @
           map (\<lambda>t. (current_thread s, CreateTask t))
             (new_tasks (next_task_id s) (tasks s @ concat (map snd (interval_tasks s)))) @
           (if http_server s then [(current_thread s, StartServer)] else []) @
           [(current_thread s, RunUntilComplete (loop_tasks s))]"
    unfolding App__start_tasks_asyncio [OF assms(1)] Let_def tw using no1 no2
    by (simp add: fold_create_task emit_def start_server_def del: set_concat fold_append)
  moreover have "loop_tasks (fst (App__start_tasks s)) =
           loop_tasks s @ new_tasks (next_task_id s) (tasks s @ concat (map snd (interval_tasks s)))"
    unfolding App__start_tasks_asyncio [OF assms(1)] Let_def tw using no1 no2
    by (simp add: fold_create_task emit_def start_server_def del: set_concat fold_append)
  ultimately show ?thesis using disj by blast
qed

text \<open>
  C4 as stated fails: on a loop without earlier tasks, the task created for the one-shot
  task is not among the tasks waited for (there are none).
\<close>

theorem C4_new_tasks_not_awaited_counterexample:
  "created (events (fst (App__start_tasks (default_app\<lparr>tasks := [Callable ''job'' True]\<rparr>))))
     = [AioTask 0 (Callable ''job'' True)] \<and>
   waited (events (fst (App__start_tasks (default_app\<lparr>tasks := [Callable ''job'' True]\<rparr>)))) = []"
  by (simp add: default_app_def App__start_tasks_def asyncio_tasks_def asyncio_interval_tasks_def
        and_then_def not_coroutine_def create_task_def emit_def all_tasks_def created_def waited_def
        Let_def)

theorem C4_waits_on_earlier_tasks_witness:
  "events (fst (App__start_tasks
      (default_app\<lparr>tasks := [Callable ''job'' True], http_server := True,
         loop_tasks := [AioTask 0 (Callable ''nats_reader'' True)], next_task_id := 1\<rparr>))) =
     [(0, CreateTask (AioTask 1 (Callable ''job'' True))), (0, StartServer),
      (0, RunUntilComplete [AioTask 0 (Callable ''nats_reader'' True)])]"
  using C4_waits_on_earlier_tasks [of "default_app\<lparr>tasks := [Callable ''job'' True], http_server := True,
         loop_tasks := [AioTask 0 (Callable ''nats_reader'' True)], next_task_id := 1\<rparr>"]
  by (simp add: default_app_def new_tasks_def)

text \<open>
  C5 (as amended). A topic that the include filter keeps (every topic when no filter is
  set) is bound, after \<open>_start\<close>, to the dynamic handler when the dynamic bindings contain
  it, whatever the static registry says, and otherwise to its static handler if it has one.
  A topic that the filter removes is bound to nothing, whichever sources contain it.
\<close>

theorem C5_dynamic_overrides_static:
  assumes "distinct (dict_keys (heap s (SUBSCRIPTIONS s)))"
    and "distinct (dict_keys (subscribe_topics_and_callbacks s))"
  shows "subscribed (fst (App__start bus s)) topic =
     (if (case listen_topic_only_if_include s of None \<Rightarrow> True
          | Some F \<Rightarrow> \<exists>f\<in>set F. sublist f topic)
      then (case dict_get (subscribe_topics_and_callbacks s) topic of
              Some dynamic_handler \<Rightarrow> Some dynamic_handler
            | None \<Rightarrow> dict_get (heap s (SUBSCRIPTIONS s)) topic)
      else None)"
  unfolding App__start_subscribed [OF assms] by (simp add: map_add_def)

text \<open>
  C5 as stated fails: a topic that both sources bind, and that no element of the filter
  occurs in, has no handler at all in the final map.
\<close>

theorem C5_filtered_collision_counterexample:
  "dict_get (heap (default_app
       \<lparr>heap := (\<lambda>a. [])(0 := [(''a'', Callable ''static_a'' True)]),
        subscribe_topics_and_callbacks := [(''a'', Callable ''dynamic_a'' True)],
        listen_topic_only_if_include := Some [''b'', ''c'']\<rparr>) 0) ''a''
     = Some (Callable ''static_a'' True) \<and>
   dict_get [(''a'', Callable ''dynamic_a'' True)] ''a'' = Some (Callable ''dynamic_a'' True) \<and>
   subscribed (fst (App__start [] (default_app
       \<lparr>heap := (\<lambda>a. [])(0 := [(''a'', Callable ''static_a'' True)]),
        subscribe_topics_and_callbacks := [(''a'', Callable ''dynamic_a'' True)],
        listen_topic_only_if_include := Some [''b'', ''c'']\<rparr>))) ''a''
     = None"
  by (simp add: eval_defs)

theorem C5_dynamic_overrides_static_witness:
  "subscribed (fst (App__start [] (default_app
       \<lparr>heap := (\<lambda>a. [])(0 := [(''a'', Callable ''static_a'' True), (''b'', Callable ''static_b'' True)]),
        subscribe_topics_and_callbacks :=
          [(''a'', Callable ''dynamic_a'' True), (''c'', Callable ''dynamic_c'' True)],
        listen_topic_only_if_include := Some [''a'', ''b'']\<rparr>))) ''a''
     = Some (Callable ''dynamic_a'' True) \<and>
   subscribed (fst (App__start [] (default_app
       \<lparr>heap := (\<lambda>a. [])(0 := [(''a'', Callable ''static_a'' True), (''b'', Callable ''static_b'' True)]),
        subscribe_topics_and_callbacks :=
          [(''a'', Callable ''dynamic_a'' True), (''c'', Callable ''dynamic_c'' True)],
        listen_topic_only_if_include := Some [''a'', ''b'']\<rparr>))) ''b''
     = Some (Callable ''static_b'' True) \<and>
   subscribed (fst (App__start [] (default_app
       \<lparr>heap := (\<lambda>a. [])(0 := [(''a'', Callable ''static_a'' True), (''b'', Callable ''static_b'' True)]),
        subscribe_topics_and_callbacks :=
          [(''a'', Callable ''dynamic_a'' True), (''c'', Callable ''dynamic_c'' True)],
        listen_topic_only_if_include := Some [''a'', ''b'']\<rparr>))) ''c''
     = None"
  using C5_dynamic_overrides_static [of "default_app
       \<lparr>heap := (\<lambda>a. [])(0 := [(''a'', Callable ''static_a'' True), (''b'', Callable ''static_b'' True)]),
        subscribe_topics_and_callbacks :=
          [(''a'', Callable ''dynamic_a'' True), (''c'', Callable ''dynamic_c'' True)],
        listen_topic_only_if_include := Some [''a'', ''b'']\<rparr>" "[]" "''a''"]
    C5_dynamic_overrides_static [of "default_app
       \<lparr>heap := (\<lambda>a. [])(0 := [(''a'', Callable ''static_a'' True), (''b'', Callable ''static_b'' True)]),
        subscribe_topics_and_callbacks :=
          [(''a'', Callable ''dynamic_a'' True), (''c'', Callable ''dynamic_c'' True)],
        listen_topic_only_if_include := Some [''a'', ''b'']\<rparr>" "[]" "''b''"]
    C5_dynamic_overrides_static [of "default_app
       \<lparr>heap := (\<lambda>a. [])(0 := [(''a'', Callable ''static_a'' True), (''b'', Callable ''static_b'' True)]),
        subscribe_topics_and_callbacks :=
          [(''a'', Callable ''dynamic_a'' True), (''c'', Callable ''dynamic_c'' True)],
        listen_topic_only_if_include := Some [''a'', ''b'']\<rparr>" "[]" "''c''"]
  by (simp add: default_app_def dict_keys_def dict_get_def map_add_def sublist_code)




text \<open>
  C7. \<open>_start\<close> calls \<open>_start_tasks\<close> in a state whose interval tasks are the registry
  \<open>INTERVAL_TASKS\<close> as it is, and they are still that afterwards; the caller-supplied
  tasks, whatever they are, do not enter it.
\<close>

theorem C7_interval_tasks_static:
  assumes "distinct (dict_keys (heap s (SUBSCRIPTIONS s)))"
  shows "(\<exists>s'. App__start bus s = App__start_tasks s' \<and> interval_tasks s' = INTERVAL_TASKS s) \<and>
         interval_tasks (fst (App__start bus s)) = INTERVAL_TASKS s \<and>
         INTERVAL_TASKS (fst (App__start bus s)) = INTERVAL_TASKS s"
proof -
  let ?s' = "(NATSClient_init bus (Some (SUBSCRIPTIONS s))
          (s\<lparr>heap := (heap s)(SUBSCRIPTIONS s :=
            (case listen_topic_only_if_include s of
               None \<Rightarrow> dict_update (heap s (SUBSCRIPTIONS s)) (subscribe_topics_and_callbacks s)
             | Some F \<Rightarrow> filter (\<lambda>p. include_loop F (fst p))
                 (dict_update (heap s (SUBSCRIPTIONS s)) (subscribe_topics_and_callbacks s)))),
            listen_topics_callbacks := Some (SUBSCRIPTIONS s)\<rparr>))
        \<lparr>tasks := tasks s @ TASKS s, interval_tasks := INTERVAL_TASKS s\<rparr>"
  have r: "App__start bus s = App__start_tasks ?s'"
    by (rule App__start_result [OF assms])
  have i: "interval_tasks ?s' = INTERVAL_TASKS s"
    by simp
  have I: "INTERVAL_TASKS ?s' = INTERVAL_TASKS s"
    by (simp add: NATSClient_init_frame)
  from r i I show ?thesis
    by (metis App__start_tasks_frame(6,7))
qed

theorem C7_interval_tasks_static_witness:
  "interval_tasks (fst (App__start [] (default_app\<lparr>tasks := [Callable ''supplied'' True],
       INTERVAL_TASKS := [(5, [Callable ''tick'' True])]\<rparr>))) = [(5, [Callable ''tick'' True])]"
  using C7_interval_tasks_static [of "default_app\<lparr>tasks := [Callable ''supplied'' True],
       INTERVAL_TASKS := [(5, [Callable ''tick'' True])]\<rparr>" "[]"]
  by (simp add: default_app_def dict_keys_def)

text \<open>
  C8. Under the \<open>sync\<close> strategy, with tasks that are all plain functions, starting the
  tasks pauses for one second, then starts one thread per one-shot task in list order, then
  one thread per interval task in dict order, then starts the HTTP server on the caller's
  thread if there is one, and then returns without an exception; nothing else happens.
\<close>

theorem C8_threaded_startup_order:
  assumes "app_strategy s = ''sync''"
    and "\<forall>t\<in>set (tasks s @ concat (map snd (interval_tasks s))). \<not> iscoroutinefunction t"
  shows "snd (App__start_tasks s) = None \<and>
         events (fst (App__start_tasks s)) =
           events s @ [(current_thread s, Sleep 1)] @
           map (\<lambda>t. (current_thread s, StartThread (Target t))) (tasks s) @
           map (\<lambda>t. (current_thread s, StartThread (Target t))) (concat (map snd (interval_tasks s))) @
           (if http_server s then [(current_thread s, StartServer)] else [])"
proof -
  have tw: "takeWhile (\<lambda>t. \<not> iscoroutinefunction t) (tasks s @ concat (map snd (interval_tasks s)))
      = tasks s @ concat (map snd (interval_tasks s))"
    using assms(2) by (simp add: takeWhile_eq_all_conv)
  from assms(2) have no1: "\<not> (\<exists>t\<in>set (tasks s). iscoroutinefunction t)"
    and no2: "\<not> (\<exists>t\<in>set (concat (map snd (interval_tasks s))). iscoroutinefunction t)"
    by auto
  show ?thesis
    unfolding App__start_tasks_sync [OF assms(1)] Let_def tw
    using no1 no2
    by (simp add: fold_start_thread emit_frame start_server_def emit_def del: set_concat)
qed

theorem C8_threaded_startup_order_witness:
  "snd (App__start_tasks (default_app\<lparr>app_strategy := ''sync'', tasks := [Callable ''job'' False],
          interval_tasks := [(5, [Callable ''tick'' False])], http_server := True\<rparr>)) = None \<and>
   events (fst (App__start_tasks (default_app\<lparr>app_strategy := ''sync'',
          tasks := [Callable ''job'' False],
          interval_tasks := [(5, [Callable ''tick'' False])], http_server := True\<rparr>))) =
     [(0, Sleep 1), (0, StartThread (Target (Callable ''job'' False))),
      (0, StartThread (Target (Callable ''tick'' False))), (0, StartServer)]"
  using C8_threaded_startup_order [of "default_app\<lparr>app_strategy := ''sync'',
          tasks := [Callable ''job'' False],
          interval_tasks := [(5, [Callable ''tick'' False])], http_server := True\<rparr>"]
  by (simp add: default_app_def)

text \<open>
  C9. \<open>_start\<close> works on the registry object itself: the dict given to the NATS client
  is the object that \<open>SUBSCRIPTIONS\<close> refers to, and after \<open>_start\<close> that object holds
  the static bindings overlaid with the dynamic ones and without the topics that the filter
  removed. So the registry differs from the declared bindings whenever the filter removes
  one of the declared topics, and whenever a dynamic binding that the filter keeps adds a
  topic or puts another handler on one.
\<close>

theorem C9_static_registry_aliased:
  assumes "distinct (dict_keys (heap s (SUBSCRIPTIONS s)))"
    and "distinct (dict_keys (subscribe_topics_and_callbacks s))"
  shows "SUBSCRIPTIONS (fst (App__start bus s)) = SUBSCRIPTIONS s \<and>
         listen_topics_callbacks (fst (App__start bus s)) = Some (SUBSCRIPTIONS s) \<and>
         heap (fst (App__start bus s)) (SUBSCRIPTIONS s) =
           (case listen_topic_only_if_include s of
               None \<Rightarrow> dict_update (heap s (SUBSCRIPTIONS s)) (subscribe_topics_and_callbacks s)
             | Some F \<Rightarrow> filter (\<lambda>p. \<exists>f\<in>set F. sublist f (fst p))
                 (dict_update (heap s (SUBSCRIPTIONS s)) (subscribe_topics_and_callbacks s))) \<and>
         ((\<exists>F. listen_topic_only_if_include s = Some F \<and>
               (\<exists>topic\<in>set (dict_keys (heap s (SUBSCRIPTIONS s))). \<not> (\<exists>f\<in>set F. sublist f topic)))
            \<longrightarrow> heap (fst (App__start bus s)) (SUBSCRIPTIONS s) \<noteq> heap s (SUBSCRIPTIONS s)) \<and>
         ((\<exists>topic handler.
               dict_get (subscribe_topics_and_callbacks s) topic = Some handler \<and>
               dict_get (heap s (SUBSCRIPTIONS s)) topic \<noteq> Some handler \<and>
               (case listen_topic_only_if_include s of None \<Rightarrow> True
                | Some F \<Rightarrow> \<exists>f\<in>set F. sublist f topic))
            \<longrightarrow> heap (fst (App__start bus s)) (SUBSCRIPTIONS s) \<noteq> heap s (SUBSCRIPTIONS s))"
proof -
  let ?a = "SUBSCRIPTIONS s"
  let ?s' = "fst (App__start bus s)"
  have sub: "subscribed ?s' topic = dict_get (heap ?s' ?a) topic" for topic
    by (simp add: subscribed_def App__start_registry [OF assms(1)])
  have removed: "heap ?s' ?a \<noteq> heap s ?a"
    if F: "listen_topic_only_if_include s = Some F"
      and t: "topic \<in> set (dict_keys (heap s ?a))" "\<not> (\<exists>f\<in>set F. sublist f topic)"
    for F topic
  proof
    assume eq: "heap ?s' ?a = heap s ?a"
    have "subscribed ?s' topic = None"
      using F t(2) by (simp add: App__start_subscribed [OF assms])
    then have "dict_get (heap s ?a) topic = None"
      using sub eq by simp
    with t(1) show False
      by (simp add: dict_get_def dict_keys_def map_of_eq_None_iff)
  qed
  have changed: "heap ?s' ?a \<noteq> heap s ?a"
    if d: "dict_get (subscribe_topics_and_callbacks s) topic = Some handler"
      and n: "dict_get (heap s ?a) topic \<noteq> Some handler"
      and k: "case listen_topic_only_if_include s of None \<Rightarrow> True
                | Some F \<Rightarrow> \<exists>f\<in>set F. sublist f topic"
    for topic handler
  proof
    assume eq: "heap ?s' ?a = heap s ?a"
    have "subscribed ?s' topic = Some handler"
      using d k by (simp add: App__start_subscribed [OF assms] map_add_def)
    with sub eq n show False by simp
  qed
  show ?thesis
    using App__start_registry [OF assms(1), of bus] removed changed by blast
qed

theorem C9_static_registry_aliased_witness:
  "heap (fst (App__start [] (test_app\<lparr>subscribe_topics_and_callbacks :=
       [(''foo'', Callable ''other'' True)]\<rparr>))) 0
     = [(''foo'', Callable ''other'' True), (''bar'', Callable ''bar'' True)] \<and>
   heap (fst (App__start [] (test_app\<lparr>subscribe_topics_and_callbacks :=
       [(''foo'', Callable ''other'' True)]\<rparr>))) 0
     \<noteq> heap (test_app\<lparr>subscribe_topics_and_callbacks := [(''foo'', Callable ''other'' True)]\<rparr>) 0"
  using C9_static_registry_aliased [of "test_app\<lparr>subscribe_topics_and_callbacks :=
       [(''foo'', Callable ''other'' True)]\<rparr>" "[]"]
  by (simp add: test_app_def default_app_def dict_keys_def dict_get_def map_add_def sublist_code)

text \<open>
  C10. With and without an HTTP server, \<open>start\<close> runs \<open>_start\<close> itself: the outcome is
  that of \<open>_start\<close>, every action of \<open>_start\<close> is performed by the calling thread, and
  in the branch without an HTTP server the only further action comes after all of them, when
  \<open>_start\<close> has returned: \<open>start_thread\<close> called on its return value \<open>None\<close>.
\<close>

theorem C10_start_runs_in_caller:
  "snd (App_start bus s) = snd (App__start bus s) \<and>
   events (fst (App_start bus s)) =
     events (fst (App__start bus s)) @
     (if http_server s \<or> snd (App__start bus s) \<noteq> None then []
      else [(current_thread s, StartThread NoneTarget)]) \<and>
   (\<exists>new. events (fst (App__start bus s)) = events s @ new \<and>
          (\<forall>e\<in>set new. fst e = current_thread s))"
  using App__start_events [of bus s]
  by (auto simp: App_start_def and_then_def start_thread_def emit_def)

theorem C10_start_runs_in_caller_witness:
  "events (fst (App_start [Callable ''nats'' True] default_app)) =
     [(0, NATSClientInit (Some 0)), (0, CreateTask (AioTask 0 (Callable ''nats'' True))),
      (0, RunUntilComplete [AioTask 0 (Callable ''nats'' True)]), (0, StartThread NoneTarget)] \<and>
   events (fst (App__start [Callable ''nats'' True] default_app)) =
     [(0, NATSClientInit (Some 0)), (0, CreateTask (AioTask 0 (Callable ''nats'' True))),
      (0, RunUntilComplete [AioTask 0 (Callable ''nats'' True)])]"
  using C10_start_runs_in_caller [of "[Callable ''nats'' True]" default_app]
  by (simp add: eval_defs)


end
